theory Spec2Isabelle
  imports Main
begin

section \<open>Positions and ranges of the editor API\<close>

text \<open>
  \<^verbatim>\<open>colorization.ts\<close> computes with \<^verbatim>\<open>vscode.Position\<close> and \<^verbatim>\<open>vscode.Range\<close>
  objects. Line and character are JavaScript numbers holding integers; they are modelled
  as unbounded \<open>int\<close> (the deltas the code computes may be negative).

  The two classes belong to the editor API, not to this source file. Their behaviour that
  the code relies on is written out here: the \<^verbatim>\<open>Position\<close> constructor rejects a negative
  line or character with an exception, \<^verbatim>\<open>translate\<close> builds a new position unless both
  deltas are zero, and the \<^verbatim>\<open>Range\<close> constructor orders its two end points.
\<close>

datatype error = IllegalArgument

record Position =
  line :: int
  character :: int

record Range =
  start :: Position
  end' :: Position

definition new_Position :: "int \<Rightarrow> int \<Rightarrow> error + Position" where
  "new_Position l c =
     (if l < 0 then Inl IllegalArgument
      else if c < 0 then Inl IllegalArgument
      else Inr \<lparr>line = l, character = c\<rparr>)"

definition isBefore :: "Position \<Rightarrow> Position \<Rightarrow> bool" where
  "isBefore p other =
     (if line p < line other then True
      else if line other < line p then False
      else character p < character other)"

definition isBeforeOrEqual :: "Position \<Rightarrow> Position \<Rightarrow> bool" where
  "isBeforeOrEqual p other =
     (if line p < line other then True
      else if line other < line p then False
      else character p \<le> character other)"

definition isAfter :: "Position \<Rightarrow> Position \<Rightarrow> bool" where
  "isAfter p other = (\<not> isBeforeOrEqual p other)"

definition isAfterOrEqual :: "Position \<Rightarrow> Position \<Rightarrow> bool" where
  "isAfterOrEqual p other = (\<not> isBefore p other)"

definition translate :: "Position \<Rightarrow> int \<Rightarrow> int \<Rightarrow> error + Position" where
  "translate p lineDelta characterDelta =
     (if lineDelta = 0 \<and> characterDelta = 0 then Inr p
      else new_Position (line p + lineDelta) (character p + characterDelta))"

text \<open>\<^verbatim>\<open>new vscode.Range(start, end)\<close>: two positions, stored in order.\<close>

definition new_Range :: "Position \<Rightarrow> Position \<Rightarrow> Range" where
  "new_Range a b =
     (if isBefore a b then \<lparr>start = a, end' = b\<rparr> else \<lparr>start = b, end' = a\<rparr>)"

text \<open>\<^verbatim>\<open>new vscode.Range(startLine, startCharacter, endLine, endCharacter)\<close>.\<close>

definition new_Range4 :: "int \<Rightarrow> int \<Rightarrow> int \<Rightarrow> int \<Rightarrow> error + Range" where
  "new_Range4 startLine startCharacter endLine endCharacter =
     (case new_Position startLine startCharacter of
        Inl e \<Rightarrow> Inl e
      | Inr a \<Rightarrow>
          (case new_Position endLine endCharacter of
             Inl e \<Rightarrow> Inl e
           | Inr b \<Rightarrow> Inr (new_Range a b)))"

text \<open>
  What the editor API guarantees of every position and range object it hands out, and
  what the specification calls well-formed: non-negative coordinates, start not after end.
\<close>

definition valid_Position :: "Position \<Rightarrow> bool" where
  "valid_Position p = (0 \<le> line p \<and> 0 \<le> character p)"

definition valid_Range :: "Range \<Rightarrow> bool" where
  "valid_Range r =
     (valid_Position (start r) \<and> valid_Position (end' r) \<and> isBeforeOrEqual (start r) (end' r))"

section \<open>The range transformer\<close>

text \<open>
  \<^verbatim>\<open>text.split("\n")\<close>: the pieces between newline characters. A character of the
  model stands for one code unit of the JavaScript string; only its length and the places of
  the newlines are used.
\<close>

fun split_newline :: "string \<Rightarrow> string list" where
  "split_newline [] = [[]]"
| "split_newline (c # cs) =
     (if c = CHR 0x0A then [] # split_newline cs
      else (case split_newline cs of
              [] \<Rightarrow> [[c]]
            | p # ps \<Rightarrow> (c # p) # ps))"

text \<open>\<^verbatim>\<open>textToRange\<close>: the range that a text occupies once typed at a start position.\<close>

definition textToRange :: "string \<Rightarrow> Position \<Rightarrow> error + Range" where
  "textToRange text startPosition =
     (let parts = split_newline text;
          addedLines = int (length parts) - 1;
          newStartLine = line startPosition;
          newStartCharacter = character startPosition;
          newEndLine = newStartLine + addedLines;
          newEndCharacter = int (length (last parts));
          newEndCharacter' =
            (if newStartLine = newEndLine then newEndCharacter + newStartCharacter
             else newEndCharacter)
      in new_Range4 newStartLine newStartCharacter newEndLine newEndCharacter')"

text \<open>\<^verbatim>\<open>shiftRangeAfterRemove\<close>: shift a range back after content before it was removed.\<close>

definition shiftRangeAfterRemove :: "Range \<Rightarrow> Position \<Rightarrow> Position \<Rightarrow> error + Range" where
  "shiftRangeAfterRemove rng removeStartPosition removeEndPosition =
     (let lineDelta = line removeStartPosition - line removeEndPosition;
          startCharacterDelta =
            (if line (start rng) = line removeEndPosition
             then character removeStartPosition - character removeEndPosition else 0);
          endCharacterDelta =
            (if line (start rng) = line removeEndPosition
                \<and> line (end' rng) = line removeEndPosition
             then startCharacterDelta else 0)
      in case translate (start rng) lineDelta startCharacterDelta of
           Inl e \<Rightarrow> Inl e
         | Inr newStart \<Rightarrow>
             (case translate (end' rng) lineDelta endCharacterDelta of
                Inl e \<Rightarrow> Inl e
              | Inr newEnd \<Rightarrow> Inr (new_Range newStart newEnd)))"

text \<open>\<^verbatim>\<open>shiftRangeAfterInsert\<close>: shift a range forward after content was inserted before it.\<close>

definition shiftRangeAfterInsert :: "Range \<Rightarrow> Position \<Rightarrow> Position \<Rightarrow> error + Range" where
  "shiftRangeAfterInsert rng insertStartPosition insertEndPosition =
     (let addedLines = line insertEndPosition - line insertStartPosition;
          newStartLine = line (start rng) + addedLines;
          newEndLine = line (end' rng) + addedLines;
          endOffsetLength =
            (if line insertEndPosition = line insertStartPosition
             then character insertEndPosition - character insertStartPosition
             else character insertEndPosition);
          newStartCharacter =
            (if line insertEndPosition = newStartLine
             then character (start rng) + endOffsetLength else character (start rng));
          newEndCharacter =
            (if line insertEndPosition = newStartLine \<and> line insertEndPosition = newEndLine
             then character (end' rng) + endOffsetLength else character (end' rng))
      in new_Range4 newStartLine newStartCharacter newEndLine newEndCharacter)"

text \<open>
  \<^verbatim>\<open>fixRange\<close>: adjust a range to account for an insert and/or replace. The result
  \<open>Inr None\<close> is the source's \<^verbatim>\<open>null\<close> (the range is removed); \<open>Inl\<close> is an exception of
  a constructor.
\<close>

definition fixRange :: "Range \<Rightarrow> Position \<Rightarrow> Position \<Rightarrow> Position \<Rightarrow> error + Range option" where
  "fixRange rng removeInsertStartPosition removeEndPosition insertEndPosition =
     (if isAfterOrEqual removeInsertStartPosition (end' rng) then Inr (Some rng)
      else if isBeforeOrEqual removeInsertStartPosition (start rng) then
        (if isAfterOrEqual removeEndPosition (end' rng) then Inr None
         else
           (let newRange =
                  (if isAfterOrEqual removeEndPosition (start rng)
                   then new_Range removeEndPosition (end' rng) else rng)
            in case shiftRangeAfterRemove newRange removeInsertStartPosition removeEndPosition of
                 Inl e \<Rightarrow> Inl e
               | Inr newRange' \<Rightarrow>
                   (case shiftRangeAfterInsert newRange' removeInsertStartPosition
                           insertEndPosition of
                      Inl e \<Rightarrow> Inl e
                    | Inr r \<Rightarrow> Inr (Some r))))
      else if isAfterOrEqual removeEndPosition (end' rng) then
        (case new_Range4 (line (start rng)) (character (start rng))
                (line insertEndPosition) (character insertEndPosition) of
           Inl e \<Rightarrow> Inl e
         | Inr r \<Rightarrow> Inr (Some r))
      else if line removeEndPosition = line (end' rng) then
        (case new_Range4 (line (start rng)) (character (start rng))
                (line insertEndPosition)
                (character insertEndPosition
                   + (character (end' rng) - character removeEndPosition)) of
           Inl e \<Rightarrow> Inl e
         | Inr r \<Rightarrow> Inr (Some r))
      else
        (let removedLines = line removeEndPosition - line removeInsertStartPosition;
             addedLines = line insertEndPosition - line removeInsertStartPosition;
             deltaLines = addedLines - removedLines
         in case new_Range4 (line (start rng)) (character (start rng))
                   (line (end' rng) + deltaLines) (character (end' rng)) of
              Inl e \<Rightarrow> Inl e
            | Inr r \<Rightarrow> Inr (Some r)))"

text \<open>
  The six \<^verbatim>\<open>return\<close> statements of \<^verbatim>\<open>fixRange\<close>, in source order, and the guards
  under which control reaches each of them.
\<close>

datatype branch =
  Unchanged | Removed | Shifted | ExtendedToInsertEnd | TailOnSameLine | TailOnOtherLine

fun branch_taken :: "branch \<Rightarrow> Range \<Rightarrow> Position \<Rightarrow> Position \<Rightarrow> bool" where
  "branch_taken Unchanged rng removeInsertStartPosition removeEndPosition =
     isAfterOrEqual removeInsertStartPosition (end' rng)"
| "branch_taken Removed rng removeInsertStartPosition removeEndPosition =
     (\<not> isAfterOrEqual removeInsertStartPosition (end' rng)
      \<and> isBeforeOrEqual removeInsertStartPosition (start rng)
      \<and> isAfterOrEqual removeEndPosition (end' rng))"
| "branch_taken Shifted rng removeInsertStartPosition removeEndPosition =
     (\<not> isAfterOrEqual removeInsertStartPosition (end' rng)
      \<and> isBeforeOrEqual removeInsertStartPosition (start rng)
      \<and> \<not> isAfterOrEqual removeEndPosition (end' rng))"
| "branch_taken ExtendedToInsertEnd rng removeInsertStartPosition removeEndPosition =
     (\<not> isAfterOrEqual removeInsertStartPosition (end' rng)
      \<and> \<not> isBeforeOrEqual removeInsertStartPosition (start rng)
      \<and> isAfterOrEqual removeEndPosition (end' rng))"
| "branch_taken TailOnSameLine rng removeInsertStartPosition removeEndPosition =
     (\<not> isAfterOrEqual removeInsertStartPosition (end' rng)
      \<and> \<not> isBeforeOrEqual removeInsertStartPosition (start rng)
      \<and> \<not> isAfterOrEqual removeEndPosition (end' rng)
      \<and> line removeEndPosition = line (end' rng))"
| "branch_taken TailOnOtherLine rng removeInsertStartPosition removeEndPosition =
     (\<not> isAfterOrEqual removeInsertStartPosition (end' rng)
      \<and> \<not> isBeforeOrEqual removeInsertStartPosition (start rng)
      \<and> \<not> isAfterOrEqual removeEndPosition (end' rng)
      \<and> line removeEndPosition \<noteq> line (end' rng))"

section \<open>Versioned edits and the colorization state\<close>

text \<open>
  \<^verbatim>\<open>TokenKind.Count\<close>: the enumeration \<^verbatim>\<open>TokenKind\<close> lists 36 token kinds before its
  last member \<^verbatim>\<open>Count\<close>. The per-kind arrays of the state have that many entries.
\<close>

definition TokenKind_Count :: nat where
  "TokenKind_Count = 36"

text \<open>
  A change event of the editor: the replaced range and the text put in its place
  (\<^verbatim>\<open>change.range\<close>, \<^verbatim>\<open>change.text\<close>).
\<close>

record TextDocumentContentChangeEvent =
  change_range :: Range
  change_text :: string

record VersionedEdits =
  editVersion :: int
  changes :: "TextDocumentContentChangeEvent list"

text \<open>
  A decoration type of the editor is an object with an identity; the model numbers them in
  the order of creation. An array entry that is \<^verbatim>\<open>undefined\<close> or \<^verbatim>\<open>null\<close> is \<open>None\<close>.
\<close>

type_synonym decoration = nat

record ColorizationState =
  decorations :: "decoration option list"
  syntacticRanges :: "Range list option list"
  semanticRanges :: "Range list option list"
  inactiveDecoration :: "decoration option"
  inactiveRanges :: "Range list option"
  versionedEdits :: "VersionedEdits list"
  currentSyntacticVersion :: int
  lastReceivedSyntacticVersion :: int
  currentSemanticVersion :: int
  lastReceivedSemanticVersion :: int

text \<open>The field initialisers of the class \<^verbatim>\<open>ColorizationState\<close>.\<close>

definition new_ColorizationState :: ColorizationState where
  "new_ColorizationState =
     \<lparr>decorations = replicate TokenKind_Count None,
      syntacticRanges = replicate TokenKind_Count None,
      semanticRanges = replicate TokenKind_Count None,
      inactiveDecoration = None,
      inactiveRanges = Some [],
      versionedEdits = [],
      currentSyntacticVersion = 0,
      lastReceivedSyntacticVersion = 0,
      currentSemanticVersion = 0,
      lastReceivedSemanticVersion = 0\<rparr>"

text \<open>Reading \<^verbatim>\<open>a[i]\<close>: an index past the end of a JavaScript array gives \<^verbatim>\<open>undefined\<close>.\<close>

definition array_get :: "'a option list \<Rightarrow> nat \<Rightarrow> 'a option" where
  "array_get a i = (if i < length a then a ! i else None)"

text \<open>
  \<^verbatim>\<open>fixRanges\<close>: the loop over the ranges (inside), the \<^verbatim>\<open>forEach\<close> over the changes
  of one edit (outside), and the guard on an absent or empty array around both.
\<close>

fun fixRanges_ranges ::
  "Range list \<Rightarrow> Position \<Rightarrow> Position \<Rightarrow> Position \<Rightarrow> error + Range list" where
  "fixRanges_ranges [] removeStart removeEnd insertEnd = Inr []"
| "fixRanges_ranges (r # ranges) removeStart removeEnd insertEnd =
     (case fixRange r removeStart removeEnd insertEnd of
        Inl e \<Rightarrow> Inl e
      | Inr newRange \<Rightarrow>
          (case fixRanges_ranges ranges removeStart removeEnd insertEnd of
             Inl e \<Rightarrow> Inl e
           | Inr newRanges \<Rightarrow>
               Inr (case newRange of None \<Rightarrow> newRanges | Some n \<Rightarrow> n # newRanges)))"

fun fixRanges_changes ::
  "Range list \<Rightarrow> TextDocumentContentChangeEvent list \<Rightarrow> error + Range list" where
  "fixRanges_changes ranges [] = Inr ranges"
| "fixRanges_changes ranges (change # rest) =
     (case textToRange (change_text change) (start (change_range change)) of
        Inl e \<Rightarrow> Inl e
      | Inr insertRange \<Rightarrow>
          (case fixRanges_ranges ranges (start (change_range change))
                  (end' (change_range change)) (end' insertRange) of
             Inl e \<Rightarrow> Inl e
           | Inr newRanges \<Rightarrow> fixRanges_changes newRanges rest))"

definition fixRanges ::
  "Range list option \<Rightarrow> TextDocumentContentChangeEvent list \<Rightarrow> error + Range list option" where
  "fixRanges originalRanges chs =
     (case originalRanges of
        None \<Rightarrow> Inr None
      | Some ranges \<Rightarrow>
          if length ranges > 0 then
            (case fixRanges_changes ranges chs of
               Inl e \<Rightarrow> Inl e
             | Inr newRanges \<Rightarrow> Inr (Some newRanges))
          else Inr (Some ranges))"

text \<open>The loop \<^verbatim>\<open>for (i = 0; i < TokenKind.Count; i++) a[i] = this.fixRanges(a[i], changes)\<close>.\<close>

fun fixRanges_kinds ::
  "Range list option list \<Rightarrow> TextDocumentContentChangeEvent list
     \<Rightarrow> error + Range list option list" where
  "fixRanges_kinds [] chs = Inr []"
| "fixRanges_kinds (a # as) chs =
     (case fixRanges a chs of
        Inl e \<Rightarrow> Inl e
      | Inr a' \<Rightarrow>
          (case fixRanges_kinds as chs of
             Inl e \<Rightarrow> Inl e
           | Inr as' \<Rightarrow> Inr (a' # as')))"


text \<open>
  \<^verbatim>\<open>applyEdits\<close>: apply any pending edits to the currently cached tokens. \<open>applyEdit\<close> is
  the body of the \<^verbatim>\<open>forEach\<close> for one edit.
\<close>

definition applyEdit :: "VersionedEdits \<Rightarrow> ColorizationState \<Rightarrow> error + ColorizationState" where
  "applyEdit edit s =
     (case (if editVersion edit > currentSyntacticVersion s then
              (case fixRanges_kinds (syntacticRanges s) (changes edit) of
                 Inl e \<Rightarrow> Inl e
               | Inr rs \<Rightarrow>
                   Inr (s\<lparr>syntacticRanges := rs, currentSyntacticVersion := editVersion edit\<rparr>))
            else Inr s) of
        Inl e \<Rightarrow> Inl e
      | Inr s1 \<Rightarrow>
          if editVersion edit > currentSemanticVersion s1 then
            (case fixRanges_kinds (semanticRanges s1) (changes edit) of
               Inl e \<Rightarrow> Inl e
             | Inr rs \<Rightarrow>
                 (case fixRanges (inactiveRanges s1) (changes edit) of
                    Inl e \<Rightarrow> Inl e
                  | Inr ir \<Rightarrow>
                      Inr (s1\<lparr>semanticRanges := rs, inactiveRanges := ir,
                              currentSemanticVersion := editVersion edit\<rparr>)))
          else Inr s1)"

fun applyEdits_forEach :: "VersionedEdits list \<Rightarrow> ColorizationState \<Rightarrow> error + ColorizationState" where
  "applyEdits_forEach [] s = Inr s"
| "applyEdits_forEach (edit # edits) s =
     (case applyEdit edit s of
        Inl e \<Rightarrow> Inl e
      | Inr s' \<Rightarrow> applyEdits_forEach edits s')"

definition applyEdits :: "ColorizationState \<Rightarrow> error + ColorizationState" where
  "applyEdits s = applyEdits_forEach (versionedEdits s) s"

text \<open>\<^verbatim>\<open>Array.prototype.findIndex\<close>: the index of the first match, or \<open>-1\<close>.\<close>

fun findIndex :: "('a \<Rightarrow> bool) \<Rightarrow> 'a list \<Rightarrow> int" where
  "findIndex P [] = -1"
| "findIndex P (x # xs) =
     (if P x then 0
      else (let i = findIndex P xs in if i = -1 then -1 else i + 1))"

text \<open>
  \<^verbatim>\<open>purgeOldVersionedEdits\<close>: remove any edits from the list if we will never receive
  tokens that old.
\<close>

definition purgeOldVersionedEdits :: "ColorizationState \<Rightarrow> ColorizationState" where
  "purgeOldVersionedEdits s =
     (let minVersion = min (lastReceivedSemanticVersion s) (lastReceivedSyntacticVersion s);
          index = findIndex (\<lambda>edit. editVersion edit > minVersion) (versionedEdits s)
      in if index = -1 then s\<lparr>versionedEdits := []\<rparr>
         else if index > 0 then s\<lparr>versionedEdits := drop (nat index) (versionedEdits s)\<rparr>
         else s)"

section \<open>Decorations and the editor window\<close>

text \<open>
  The effects of the presentation code are calls of the editor API. The model records them
  in the order in which they happen: the creation of a decoration type, its disposal, and
  \<^verbatim>\<open>setDecorations\<close> on an editor. A \<^verbatim>\<open>Uri\<close> is an object (compared by identity with
  \<^verbatim>\<open>===\<close>) that prints as a string.
\<close>

datatype Uri = Uri (uri_object: nat) (uri_toString: string)

record TextEditor =
  editor_id :: nat
  document_uri :: Uri

datatype event =
  CreateDecoration decoration
  | Dispose decoration
  | SetDecorations nat decoration "Range list"

record window =
  visibleTextEditors :: "TextEditor list"
  events :: "event list"
  created :: nat

text \<open>\<^verbatim>\<open>vscode.window.createTextEditorDecorationType\<close>: a new decoration type.\<close>

definition createTextEditorDecorationType :: "window \<Rightarrow> decoration \<times> window" where
  "createTextEditorDecorationType w =
     (created w, w\<lparr>events := events w @ [CreateDecoration (created w)], created := created w + 1\<rparr>)"

definition dispose_decoration :: "decoration \<Rightarrow> window \<Rightarrow> window" where
  "dispose_decoration d w = w\<lparr>events := events w @ [Dispose d]\<rparr>"

definition setDecorations :: "TextEditor \<Rightarrow> decoration \<Rightarrow> Range list \<Rightarrow> window \<Rightarrow> window" where
  "setDecorations e d ranges w = w\<lparr>events := events w @ [SetDecorations (editor_id e) d ranges]\<rparr>"

text \<open>
  A theme style; a field that is \<^verbatim>\<open>undefined\<close> is \<open>None\<close>, and a JavaScript string counts
  as true when it is present and not empty.
\<close>

record ThemeStyle =
  foreground :: "string option"
  background :: "string option"
  fontStyle :: "string option"

definition truthy :: "string option \<Rightarrow> bool" where
  "truthy x = (case x of None \<Rightarrow> False | Some t \<Rightarrow> t \<noteq> [])"

text \<open>
  \<^verbatim>\<open>createDecorationFromThemeStyle\<close>: a decoration type for a style that sets something,
  \<^verbatim>\<open>null\<close> otherwise. The render options built from the style do not matter here.
\<close>

definition createDecorationFromThemeStyle ::
  "ThemeStyle option \<Rightarrow> window \<Rightarrow> decoration option \<times> window" where
  "createDecorationFromThemeStyle themeStyle w =
     (case themeStyle of
        None \<Rightarrow> (None, w)
      | Some st \<Rightarrow>
          if truthy (foreground st) \<or> truthy (background st) \<or> truthy (fontStyle st)
          then (case createTextEditorDecorationType w of (d, w') \<Rightarrow> (Some d, w'))
          else (None, w))"

text \<open>
  What the presentation code reads from outside the state: the settings of the document
  (\<^verbatim>\<open>new CppSettings(this.uri)\<close>), the two style maps of the colorization settings, and
  \<^verbatim>\<open>util.isEditorFileCpp\<close>. A task queued with \<^verbatim>\<open>syncWithLoadingSettings\<close> runs to its
  end without interruption; the functions below that stand for such a task are its body.
\<close>

record CppSettings =
  enhancedColorization :: string
  intelliSenseEngine :: string
  dimInactiveRegions :: bool

record environment =
  settings :: CppSettings
  themeStyleCMap :: "ThemeStyle option list"
  themeStyleCppMap :: "ThemeStyle option list"
  isEditorFileCpp :: "string \<Rightarrow> bool"

definition colorizationEnabled :: "CppSettings \<Rightarrow> bool" where
  "colorizationEnabled st =
     (enhancedColorization st = ''Enabled'' \<and> intelliSenseEngine st = ''Default'')"

text \<open>
  \<^verbatim>\<open>createColorizationDecorations\<close>. The first decorator created takes precedence, so the
  loop runs from the last kind down: \<open>createDecorations_from i\<close> is the loop with \<open>i\<close>
  kinds still to go.
\<close>

fun createDecorations_from ::
  "nat \<Rightarrow> ThemeStyle option list \<Rightarrow> decoration option list \<Rightarrow> window
     \<Rightarrow> decoration option list \<times> window" where
  "createDecorations_from 0 themeStyleMap decs w = (decs, w)"
| "createDecorations_from (Suc i) themeStyleMap decs w =
     (case createDecorationFromThemeStyle (array_get themeStyleMap i) w of
        (d, w') \<Rightarrow> createDecorations_from i themeStyleMap (decs[i := d]) w')"

definition createColorizationDecorations ::
  "environment \<Rightarrow> bool \<Rightarrow> ColorizationState \<times> window \<Rightarrow> ColorizationState \<times> window" where
  "createColorizationDecorations env isCpp sw =
     (case sw of (s, w) \<Rightarrow>
        (case (if colorizationEnabled (settings env) then
                 (case createDecorations_from TokenKind_Count
                         (if isCpp then themeStyleCppMap env else themeStyleCMap env)
                         (decorations s) w of
                    (decs, w') \<Rightarrow> (s\<lparr>decorations := decs\<rparr>, w'))
               else (s, w)) of
           (s1, w1) \<Rightarrow>
             if dimInactiveRegions (settings env) then
               (case createTextEditorDecorationType w1 of
                  (d, w2) \<Rightarrow> (s1\<lparr>inactiveDecoration := Some d\<rparr>, w2))
             else (s1, w1)))"

text \<open>The loop that disposes of every decoration present in an array, in index order.\<close>

fun dispose_each :: "decoration option list \<Rightarrow> window \<Rightarrow> window" where
  "dispose_each [] w = w"
| "dispose_each (None # ds) w = dispose_each ds w"
| "dispose_each (Some d # ds) w = dispose_each ds (dispose_decoration d w)"

text \<open>\<^verbatim>\<open>disposeColorizationDecorations\<close>: dispose of all old decorations.\<close>

definition disposeColorizationDecorations ::
  "ColorizationState \<times> window \<Rightarrow> ColorizationState \<times> window" where
  "disposeColorizationDecorations sw =
     (case sw of (s, w) \<Rightarrow>
        (let w1 = (case inactiveDecoration s of None \<Rightarrow> w | Some d \<Rightarrow> dispose_decoration d w)
         in (s\<lparr>inactiveDecoration := None, decorations := map (\<lambda>d. None) (decorations s)\<rparr>,
             dispose_each (decorations s) w1)))"

text \<open>\<^verbatim>\<open>refreshInner\<close>: \<open>refreshKind\<close> is the body of its loop for the kind \<open>i\<close>.\<close>

definition refreshKind :: "TextEditor \<Rightarrow> ColorizationState \<Rightarrow> nat \<Rightarrow> window \<Rightarrow> window" where
  "refreshKind e s i w =
     (case array_get (decorations s) i of
        None \<Rightarrow> w
      | Some d \<Rightarrow>
          (let ranges =
                 (case array_get (semanticRanges s) i of
                    None \<Rightarrow> array_get (syntacticRanges s) i
                  | Some sem \<Rightarrow>
                      (case array_get (syntacticRanges s) i of
                         None \<Rightarrow> Some sem
                       | Some syn \<Rightarrow> if length syn = 0 then Some sem else Some (syn @ sem)))
           in case ranges of
                None \<Rightarrow> w
              | Some rs \<Rightarrow> if length rs > 0 then setDecorations e d rs w else w))"

definition refreshInner :: "environment \<Rightarrow> TextEditor \<Rightarrow> ColorizationState \<Rightarrow> window \<Rightarrow> window" where
  "refreshInner env e s w =
     (let w1 = (if colorizationEnabled (settings env)
                then fold (refreshKind e s) [0..<TokenKind_Count] w else w)
      in if dimInactiveRegions (settings env) then
           (case inactiveDecoration s of
              None \<Rightarrow> w1
            | Some d \<Rightarrow>
                (case inactiveRanges s of
                   None \<Rightarrow> w1
                 | Some rs \<Rightarrow> setDecorations e d rs w1))
         else w1)"

text \<open>The task of \<^verbatim>\<open>onSettingsChanged\<close>.\<close>

definition onSettingsChanged ::
  "environment \<Rightarrow> Uri \<Rightarrow> ColorizationState \<times> window \<Rightarrow> error + ColorizationState \<times> window" where
  "onSettingsChanged env uri sw =
     (case sw of (s, w) \<Rightarrow>
        (case applyEdits s of
           Inl e \<Rightarrow> Inl e
         | Inr s1 \<Rightarrow>
             (case disposeColorizationDecorations (s1, w) of (s2, w2) \<Rightarrow>
                (let isCpp = isEditorFileCpp env (uri_toString uri)
                 in case createColorizationDecorations env isCpp (s2, w2) of (s3, w3) \<Rightarrow>
                      (let editors = filter (\<lambda>e. document_uri e = uri) (visibleTextEditors w3)
                       in Inr (s3, fold (\<lambda>e. refreshInner env e s3) editors w3))))))"

text \<open>
  The task of \<^verbatim>\<open>updateColorizationRanges\<close>. The existing decorators are set aside and
  disposed of after the new decorators have been applied.
\<close>

definition updateColorizationRanges ::
  "environment \<Rightarrow> string \<Rightarrow> ColorizationState \<times> window \<Rightarrow> error + ColorizationState \<times> window" where
  "updateColorizationRanges env uri sw =
     (case sw of (s, w) \<Rightarrow>
        (case applyEdits s of
           Inl e \<Rightarrow> Inl e
         | Inr s1 \<Rightarrow>
             (let s2 = purgeOldVersionedEdits s1;
                  oldInactiveDecoration = inactiveDecoration s2;
                  oldDecorations = decorations s2;
                  s3 = s2\<lparr>inactiveDecoration := None,
                         decorations := replicate TokenKind_Count None\<rparr>;
                  isCpp = isEditorFileCpp env uri
              in case createColorizationDecorations env isCpp (s3, w) of (s4, w4) \<Rightarrow>
                   (let editors = filter (\<lambda>e. uri_toString (document_uri e) = uri)
                                    (visibleTextEditors w4);
                        w5 = fold (\<lambda>e. refreshInner env e s4) editors w4;
                        w6 = (case oldInactiveDecoration of
                                None \<Rightarrow> w5
                              | Some d \<Rightarrow> dispose_decoration d w5)
                    in Inr (s4, dispose_each oldDecorations w6)))))"

text \<open>
  \<^verbatim>\<open>updateSyntactic\<close> and \<^verbatim>\<open>updateSemantic\<close>: the assignments, then the task of
  \<^verbatim>\<open>updateColorizationRanges\<close>, which the source queues behind the tasks already
  pending; here none is pending, so the task runs next.
\<close>

definition updateSyntactic ::
  "environment \<Rightarrow> string \<Rightarrow> Range list option list \<Rightarrow> int \<Rightarrow> ColorizationState \<times> window
     \<Rightarrow> error + ColorizationState \<times> window" where
  "updateSyntactic env uri newRanges version sw =
     (case sw of (s, w) \<Rightarrow>
        updateColorizationRanges env uri
          (s\<lparr>syntacticRanges := map (array_get newRanges) [0..<TokenKind_Count],
             currentSyntacticVersion := version,
             lastReceivedSyntacticVersion := version\<rparr>, w))"

definition updateSemantic ::
  "environment \<Rightarrow> string \<Rightarrow> Range list option list \<Rightarrow> Range list option \<Rightarrow> int
     \<Rightarrow> ColorizationState \<times> window \<Rightarrow> error + ColorizationState \<times> window" where
  "updateSemantic env uri newRanges newInactiveRanges version sw =
     (case sw of (s, w) \<Rightarrow>
        updateColorizationRanges env uri
          (s\<lparr>inactiveRanges := newInactiveRanges,
             semanticRanges := map (array_get newRanges) [0..<TokenKind_Count],
             currentSemanticVersion := version,
             lastReceivedSemanticVersion := version\<rparr>, w))"




text \<open>
  The versions that a pass whose applied-version counter is \<open>v\<close> takes on while it walks
  an edit log from front to back: the version of each edit that is greater than the counter
  at that moment.
\<close>

fun consumed :: "VersionedEdits list \<Rightarrow> int \<Rightarrow> int list" where
  "consumed [] v = []"
| "consumed (edit # edits) v =
     (if editVersion edit > v then editVersion edit # consumed edits (editVersion edit)
      else consumed edits v)"

text \<open>
  Telling disposals from the other calls, and a window whose record of calls has grown by
  calls that dispose of nothing.
\<close>

fun is_Dispose :: "event \<Rightarrow> bool" where
  "is_Dispose (Dispose d) = True"
| "is_Dispose e = False"

definition grows :: "window \<Rightarrow> window \<Rightarrow> bool" where
  "grows w w' = (\<exists>evs. events w' = events w @ evs \<and> (\<forall>e\<in>set evs. \<not> is_Dispose e))"



section \<open>Example inputs\<close>

text \<open>
  Settings with enhanced colorization switched off, without and with the dimming of
  inactive regions, and a window that shows no editor.
\<close>

definition plain_environment :: environment where
  "plain_environment =
     \<lparr>settings = \<lparr>enhancedColorization = ''Disabled'', intelliSenseEngine = ''Default'',
                   dimInactiveRegions = False\<rparr>,
      themeStyleCMap = [], themeStyleCppMap = [], isEditorFileCpp = (\<lambda>uri. True)\<rparr>"

definition dimming_environment :: environment where
  "dimming_environment =
     \<lparr>settings = \<lparr>enhancedColorization = ''Disabled'', intelliSenseEngine = ''Default'',
                   dimInactiveRegions = True\<rparr>,
      themeStyleCMap = [], themeStyleCppMap = [], isEditorFileCpp = (\<lambda>uri. True)\<rparr>"

definition empty_window :: window where
  "empty_window = \<lparr>visibleTextEditors = [], events = [], created = 0\<rparr>"

section \<open>Properties of the range transformer\<close>

lemmas ord_defs = isBefore_def isBeforeOrEqual_def isAfter_def isAfterOrEqual_def
lemmas valid_defs = valid_Position_def valid_Range_def

lemma new_Position_ok: "0 \<le> l \<Longrightarrow> 0 \<le> c \<Longrightarrow> new_Position l c = Inr \<lparr>line = l, character = c\<rparr>"
  by (simp add: new_Position_def)

lemma new_Range_ordered: "isBeforeOrEqual a b \<Longrightarrow> new_Range a b = \<lparr>start = a, end' = b\<rparr>"
  by (cases a; cases b) (auto simp: new_Range_def ord_defs split: if_splits)

lemma new_Range4_ok:
  "0 \<le> sl \<Longrightarrow> 0 \<le> sc \<Longrightarrow> 0 \<le> el \<Longrightarrow> 0 \<le> ec \<Longrightarrow> sl < el \<or> (sl = el \<and> sc \<le> ec) \<Longrightarrow>
   new_Range4 sl sc el ec =
     Inr \<lparr>start = \<lparr>line = sl, character = sc\<rparr>, end' = \<lparr>line = el, character = ec\<rparr>\<rparr>"
  by (auto simp: new_Range4_def new_Position_ok new_Range_def ord_defs)

text \<open>
  The text of a change, typed at a valid position, ends at a valid position that is not before
  the start: every change event gives \<^verbatim>\<open>fixRange\<close> an insert end at or after the start.
\<close>

lemma split_newline_not_empty: "split_newline t \<noteq> []"
  by (induction t) (auto split: list.splits)

lemma textToRange_end:
  assumes "valid_Position p"
  shows "\<exists>q. textToRange t p = Inr \<lparr>start = p, end' = q\<rparr> \<and> valid_Position q \<and> isBeforeOrEqual p q"
proof -
  define k where "k = int (length (split_newline t)) - 1"
  define m where "m = int (length (last (split_newline t)))"
  have "length (split_newline t) \<ge> 1"
    using split_newline_not_empty [of t] by (cases "split_newline t") auto
  then have k: "k \<ge> 0" unfolding k_def by linarith
  have m: "m \<ge> 0" unfolding m_def by simp
  have "textToRange t p =
          new_Range4 (line p) (character p) (line p + k)
            (if line p = line p + k then m + character p else m)"
    by (simp add: textToRange_def Let_def k_def m_def)
  also have "\<dots> = Inr \<lparr>start = p,
                 end' = \<lparr>line = line p + k,
                         character = (if line p = line p + k then m + character p else m)\<rparr>\<rparr>"
    using assms k m
    by (cases p) (auto simp: new_Range4_def new_Position_def new_Range_def ord_defs valid_defs)
  finally show ?thesis
    using assms k m by (auto simp: ord_defs valid_defs)
qed

lemma fixRange_extend:
  assumes "valid_Range r" "valid_Position rs" "valid_Position ie" "isBeforeOrEqual rs ie"
    "isAfter rs (start r)" "isBefore rs (end' r)" "isAfterOrEqual re (end' r)"
  shows "fixRange r rs re ie = Inr (Some \<lparr>start = start r, end' = ie\<rparr>)"
proof -
  have g: "\<not> isAfterOrEqual rs (end' r)" "\<not> isBeforeOrEqual rs (start r)"
    using assms by (auto simp: ord_defs)
  have "new_Range4 (line (start r)) (character (start r)) (line ie) (character ie) =
     Inr \<lparr>start = \<lparr>line = line (start r), character = character (start r)\<rparr>, end' = \<lparr>line = line ie, character = character ie\<rparr>\<rparr>"
    using assms by (intro new_Range4_ok) (auto simp: ord_defs valid_defs split: if_splits)
  then show ?thesis using g assms(7) by (simp add: fixRange_def)
qed

lemma fixRange_tail_same:
  assumes "valid_Range r" "valid_Position rs" "valid_Position re" "valid_Position ie" "isBeforeOrEqual rs ie"
    "isAfter rs (start r)" "isBefore re (end' r)" "line re = line (end' r)" "isBeforeOrEqual rs re"
  shows "fixRange r rs re ie = Inr (Some \<lparr>start = start r,
           end' = \<lparr>line = line ie, character = character ie + (character (end' r) - character re)\<rparr>\<rparr>)"
proof -
  have g: "\<not> isAfterOrEqual rs (end' r)" "\<not> isBeforeOrEqual rs (start r)" "\<not> isAfterOrEqual re (end' r)"
    using assms by (auto simp: ord_defs split: if_splits)
  have "new_Range4 (line (start r)) (character (start r)) (line ie) (character ie + (character (end' r) - character re)) =
     Inr \<lparr>start = \<lparr>line = line (start r), character = character (start r)\<rparr>,
          end' = \<lparr>line = line ie, character = character ie + (character (end' r) - character re)\<rparr>\<rparr>"
    using assms by (intro new_Range4_ok) (auto simp: ord_defs valid_defs split: if_splits)
  then show ?thesis using g assms(8) by (simp add: fixRange_def)
qed

lemma fixRange_tail_other:
  assumes "valid_Range r" "valid_Position rs" "valid_Position re" "valid_Position ie" "isBeforeOrEqual rs ie"
    "isAfter rs (start r)" "isBefore re (end' r)" "line re \<noteq> line (end' r)" "isBeforeOrEqual rs re"
  shows "fixRange r rs re ie = Inr (Some \<lparr>start = start r,
           end' = \<lparr>line = line (end' r) + (line ie - line re), character = character (end' r)\<rparr>\<rparr>)"
proof -
  have g: "\<not> isAfterOrEqual rs (end' r)" "\<not> isBeforeOrEqual rs (start r)" "\<not> isAfterOrEqual re (end' r)"
    using assms by (auto simp: ord_defs split: if_splits)
  have "new_Range4 (line (start r)) (character (start r)) (line (end' r) + (line ie - line re)) (character (end' r)) =
     Inr \<lparr>start = \<lparr>line = line (start r), character = character (start r)\<rparr>,
          end' = \<lparr>line = line (end' r) + (line ie - line re), character = character (end' r)\<rparr>\<rparr>"
    using assms by (intro new_Range4_ok) (auto simp: ord_defs valid_defs split: if_splits)
  then show ?thesis using g assms(8) by (simp add: fixRange_def Let_def algebra_simps)
qed


lemma translate_ok:
  "0 \<le> line p + dl \<Longrightarrow> 0 \<le> character p + dc \<Longrightarrow>
   translate p dl dc = Inr \<lparr>line = line p + dl, character = character p + dc\<rparr>"
  by (cases p) (simp add: translate_def new_Position_def)

lemma shiftRangeAfterRemove_val:
  assumes "valid_Range r" "valid_Position rs" "valid_Position re"
    "isBeforeOrEqual rs re" "isBeforeOrEqual re (start r)"
  shows "shiftRangeAfterRemove r rs re = Inr
     \<lparr>start = \<lparr>line = line (start r) + (line rs - line re),
                character = character (start r) +
                  (if line (start r) = line re then character rs - character re else 0)\<rparr>,
      end' = \<lparr>line = line (end' r) + (line rs - line re),
               character = character (end' r) +
                  (if line (end' r) = line re then character rs - character re else 0)\<rparr>\<rparr>"
proof -
  have ee: "line (end' r) = line re \<Longrightarrow> line (start r) = line re"
    using assms by (auto simp: ord_defs valid_defs split: if_splits)
  have t1: "translate (start r) (line rs - line re)
              (if line (start r) = line re then character rs - character re else 0) =
            Inr \<lparr>line = line (start r) + (line rs - line re),
                character = character (start r) +
                  (if line (start r) = line re then character rs - character re else 0)\<rparr>"
    using assms by (intro translate_ok) (auto simp: ord_defs valid_defs split: if_splits)
  have t2: "translate (end' r) (line rs - line re)
              (if line (start r) = line re \<and> line (end' r) = line re
               then (if line (start r) = line re then character rs - character re else 0) else 0) =
            Inr \<lparr>line = line (end' r) + (line rs - line re),
                character = character (end' r) +
                  (if line (end' r) = line re then character rs - character re else 0)\<rparr>"
    using assms ee by (subst translate_ok) (auto simp: ord_defs valid_defs split: if_splits)
  have ord: "isBeforeOrEqual
       \<lparr>line = line (start r) + (line rs - line re),
                character = character (start r) +
                  (if line (start r) = line re then character rs - character re else 0)\<rparr>
       \<lparr>line = line (end' r) + (line rs - line re),
                character = character (end' r) +
                  (if line (end' r) = line re then character rs - character re else 0)\<rparr>"
    using assms by (auto simp: ord_defs valid_defs split: if_splits)
  show ?thesis
    unfolding shiftRangeAfterRemove_def Let_def t1 t2
    by (simp add: new_Range_ordered [OF ord])
qed

lemma shiftRangeAfterInsert_val:
  assumes "valid_Range r" "valid_Position is" "valid_Position ie"
    "isBeforeOrEqual is ie" "isBeforeOrEqual is (start r)"
  shows "shiftRangeAfterInsert r is ie = Inr
     \<lparr>start = \<lparr>line = line (start r) + (line ie - line is),
                character = character (start r) +
                  (if line (start r) = line is
                   then (if line ie = line is then character ie - character is else character ie)
                   else 0)\<rparr>,
      end' = \<lparr>line = line (end' r) + (line ie - line is),
               character = character (end' r) +
                  (if line (end' r) = line is
                   then (if line ie = line is then character ie - character is else character ie)
                   else 0)\<rparr>\<rparr>"
proof -
  have ee: "line (end' r) = line is \<Longrightarrow> line (start r) = line is"
    using assms by (auto simp: ord_defs valid_defs split: if_splits)
  have "new_Range4 (line (start r) + (line ie - line is))
          (character (start r) +
                  (if line (start r) = line is
                   then (if line ie = line is then character ie - character is else character ie)
                   else 0))
          (line (end' r) + (line ie - line is))
          (character (end' r) +
                  (if line (end' r) = line is
                   then (if line ie = line is then character ie - character is else character ie)
                   else 0)) = Inr
     \<lparr>start = \<lparr>line = line (start r) + (line ie - line is),
                character = character (start r) +
                  (if line (start r) = line is
                   then (if line ie = line is then character ie - character is else character ie)
                   else 0)\<rparr>,
      end' = \<lparr>line = line (end' r) + (line ie - line is),
               character = character (end' r) +
                  (if line (end' r) = line is
                   then (if line ie = line is then character ie - character is else character ie)
                   else 0)\<rparr>\<rparr>"
    using assms by (intro new_Range4_ok) (auto simp: ord_defs valid_defs split: if_splits)
  moreover have "shiftRangeAfterInsert r is ie = new_Range4 (line (start r) + (line ie - line is))
          (character (start r) +
                  (if line (start r) = line is
                   then (if line ie = line is then character ie - character is else character ie)
                   else 0))
          (line (end' r) + (line ie - line is))
          (character (end' r) +
                  (if line (end' r) = line is
                   then (if line ie = line is then character ie - character is else character ie)
                   else 0))"
    using ee by (auto simp: shiftRangeAfterInsert_def Let_def)
  ultimately show ?thesis by simp
qed

lemma shiftRangeAfterRemove_valid:
  assumes "valid_Range r" "valid_Position rs" "valid_Position re"
    "isBeforeOrEqual rs re" "isBeforeOrEqual re (start r)"
    "shiftRangeAfterRemove r rs re = Inr r1"
  shows "valid_Range r1 \<and> isBeforeOrEqual rs (start r1)"
  using assms(6) unfolding shiftRangeAfterRemove_val [OF assms(1-5)]
  using assms(1-5) by (auto simp: ord_defs valid_defs split: if_splits)






lemma shiftRangeAfterInsert_valid:
  assumes "valid_Range r" "valid_Position is" "valid_Position ie"
    "isBeforeOrEqual is ie" "isBeforeOrEqual is (start r)"
    "shiftRangeAfterInsert r is ie = Inr r1"
  shows "valid_Range r1"
  using assms(6) unfolding shiftRangeAfterInsert_val [OF assms(1-5)]
  using assms(1-5) by (auto simp: ord_defs valid_defs split: if_splits)

lemma fixRange_shifted_valid:
  assumes "valid_Range r" "valid_Position rs" "valid_Position re" "valid_Position ie"
    "isBeforeOrEqual rs re" "isBeforeOrEqual rs ie"
    "isBeforeOrEqual rs (start r)" "\<not> isAfterOrEqual re (end' r)"
  shows "\<exists>r'. fixRange r rs re ie = Inr (Some r') \<and> valid_Range r'"
proof -
  define nr where "nr = (if isAfterOrEqual re (start r) then new_Range re (end' r) else r)"
  have g: "\<not> isAfterOrEqual rs (end' r)"
    using assms by (auto simp: ord_defs split: if_splits)
  have nr: "valid_Range nr" "isBeforeOrEqual re (start nr)"
    using assms unfolding nr_def by (auto simp: new_Range_def ord_defs valid_defs split: if_splits)
  obtain r1 where r1: "shiftRangeAfterRemove nr rs re = Inr r1"
    using shiftRangeAfterRemove_val [OF nr(1) assms(2,3,5) nr(2)] by blast
  have v1: "valid_Range r1" "isBeforeOrEqual rs (start r1)"
    using shiftRangeAfterRemove_valid [OF nr(1) assms(2,3,5) nr(2) r1] by auto
  obtain r2 where r2: "shiftRangeAfterInsert r1 rs ie = Inr r2"
    using shiftRangeAfterInsert_val [OF v1(1) assms(2,4,6) v1(2)] by blast
  have v2: "valid_Range r2"
    using shiftRangeAfterInsert_valid [OF v1(1) assms(2,4,6) v1(2) r2] .
  have "fixRange r rs re ie = Inr (Some r2)"
    using g assms(7,8) r1 r2 by (simp add: fixRange_def nr_def [symmetric])
  then show ?thesis using v2 by blast
qed

lemma fixRange_null_iff: "(fixRange r rs re ie = Inr None) = branch_taken Removed r rs re"
  by (auto simp: fixRange_def Let_def split: sum.splits)

lemma branch_taken_unique: "\<exists>!b. branch_taken b r rs re"
proof -
  have "\<exists>b. branch_taken b r rs re"
    by (metis branch_taken.simps)
  moreover have "branch_taken b r rs re \<Longrightarrow> branch_taken c r rs re \<Longrightarrow> b = c" for b c
    by (cases b; cases c) auto
  ultimately show ?thesis by blast
qed

text \<open>
  Claim C4. For a valid input range and a well-formed replacement (valid positions,
  removed start not after the removed end nor after the end of the inserted text),
  \<^verbatim>\<open>fixRange\<close> takes exactly one of its six branches, returns \<^verbatim>\<open>null\<close> exactly in the
  branch that removes the range, raises no exception, and a range it returns is valid:
  start not after end, coordinates non-negative.
\<close>

theorem fixRange_one_branch_valid_result:
  assumes "valid_Range r" "valid_Position rs" "valid_Position re" "valid_Position ie"
    "isBeforeOrEqual rs re" "isBeforeOrEqual rs ie"
  shows "(\<exists>!b. branch_taken b r rs re)
       \<and> ((fixRange r rs re ie = Inr None) = branch_taken Removed r rs re)
       \<and> (\<exists>res. fixRange r rs re ie = Inr res \<and> (\<forall>r'. res = Some r' \<longrightarrow> valid_Range r'))"
proof -
  have "\<exists>res. fixRange r rs re ie = Inr res \<and> (\<forall>r'. res = Some r' \<longrightarrow> valid_Range r')"
  proof (cases "isAfterOrEqual rs (end' r)")
    case True
    then show ?thesis using assms(1) by (simp add: fixRange_def)
  next
    case a: False
    show ?thesis
    proof (cases "isBeforeOrEqual rs (start r)")
      case b: True
      show ?thesis
      proof (cases "isAfterOrEqual re (end' r)")
        case True
        then show ?thesis using a b by (simp add: fixRange_def)
      next
        case False
        then show ?thesis using fixRange_shifted_valid [OF assms b] by auto
      qed
    next
      case b: False
      then have b': "isAfter rs (start r)" by (simp add: isAfter_def)
      from a have a': "isBefore rs (end' r)" by (simp add: isAfterOrEqual_def)
      show ?thesis
      proof (cases "isAfterOrEqual re (end' r)")
        case True
        show ?thesis
          unfolding fixRange_extend [OF assms(1,2,4,6) b' a' True]
          using assms b' by (auto simp: ord_defs valid_defs split: if_splits)
      next
        case c: False
        then have c': "isBefore re (end' r)" by (simp add: isAfterOrEqual_def)
        show ?thesis
        proof (cases "line re = line (end' r)")
          case True
          show ?thesis
            unfolding fixRange_tail_same [OF assms(1-4,6) b' c' True assms(5)]
            using assms b' c' True by (auto simp: ord_defs valid_defs split: if_splits)
        next
          case False
          show ?thesis
            unfolding fixRange_tail_other [OF assms(1-4,6) b' c' False assms(5)]
            using assms b' c' False by (auto simp: ord_defs valid_defs split: if_splits)
        qed
      qed
    qed
  qed
  then show ?thesis using branch_taken_unique fixRange_null_iff by blast
qed

text \<open>
  Claim C9. The zero-length edit at any position \<open>p\<close> (nothing removed, nothing inserted)
  leaves every valid range unchanged.
\<close>

theorem fixRange_identity: "valid_Range r \<Longrightarrow> fixRange r p p p = Inr (Some r)"
  by (auto simp: fixRange_def shiftRangeAfterRemove_def shiftRangeAfterInsert_def Let_def
      ord_defs valid_defs new_Position_def translate_def new_Range_def new_Range4_def split: if_splits)

text \<open>
  Claim C10. When the edit begins strictly inside a valid range, the transformed range is
  present and starts where the original range starts, line and character unchanged.
\<close>

theorem fixRange_mid_range_keeps_start:
  assumes "valid_Range r" "valid_Position rs" "valid_Position re" "valid_Position ie"
    "isBeforeOrEqual rs re" "isBeforeOrEqual rs ie"
    "isAfter rs (start r)" "isBefore rs (end' r)"
  shows "\<exists>r'. fixRange r rs re ie = Inr (Some r') \<and> start r' = start r"
proof (cases "isAfterOrEqual re (end' r)")
  case True
  show ?thesis
    by (simp add: fixRange_extend [OF assms(1,2,4,6,7,8) True])
next
  case False
  then have c: "isBefore re (end' r)" by (simp add: isAfterOrEqual_def)
  show ?thesis
  proof (cases "line re = line (end' r)")
    case True
    show ?thesis by (simp add: fixRange_tail_same [OF assms(1-4,6,7) c True assms(5)])
  next
    case False
    show ?thesis by (simp add: fixRange_tail_other [OF assms(1-4,6,7) c False assms(5)])
  qed
qed

text \<open>
  Claim C8, amended. An edit that starts at or before the start of the range and strictly
  before its end, and that removes up to the end of the range or beyond, deletes the range:
  \<^verbatim>\<open>fixRange\<close> returns \<^verbatim>\<open>null\<close>. (An edit that starts at or after the end of the range
  is caught by the first guard and leaves the range as it is; so an empty range at the
  start of the edit survives.)
\<close>

theorem fixRange_full_consumption:
  assumes "isBeforeOrEqual rs (start r)" "isAfterOrEqual re (end' r)" "isBefore rs (end' r)"
  shows "fixRange r rs re ie = Inr None"
  using assms by (simp add: fixRange_def isAfterOrEqual_def)


section \<open>The range transformer at concrete inputs\<close>

text \<open>
  Claim C4 at the specification's scenario: range (2,5)-(2,10), three characters removed at
  the start of line 2 and two characters inserted; the range moves to (2,4)-(2,9).
\<close>

theorem fixRange_one_branch_valid_result_witness:
  "valid_Range \<lparr>start = \<lparr>line = 2, character = 5\<rparr>, end' = \<lparr>line = 2, character = 10\<rparr>\<rparr>
   \<and> valid_Position \<lparr>line = 2, character = 0\<rparr>
   \<and> valid_Position \<lparr>line = 2, character = 3\<rparr>
   \<and> valid_Position \<lparr>line = 2, character = 2\<rparr>
   \<and> isBeforeOrEqual \<lparr>line = 2, character = 0\<rparr> \<lparr>line = 2, character = 3\<rparr>
   \<and> isBeforeOrEqual \<lparr>line = 2, character = 0\<rparr> \<lparr>line = 2, character = 2\<rparr>
   \<and> (\<exists>!b. branch_taken b
          \<lparr>start = \<lparr>line = 2, character = 5\<rparr>, end' = \<lparr>line = 2, character = 10\<rparr>\<rparr>
          \<lparr>line = 2, character = 0\<rparr> \<lparr>line = 2, character = 3\<rparr>)
   \<and> fixRange \<lparr>start = \<lparr>line = 2, character = 5\<rparr>, end' = \<lparr>line = 2, character = 10\<rparr>\<rparr>
         \<lparr>line = 2, character = 0\<rparr> \<lparr>line = 2, character = 3\<rparr> \<lparr>line = 2, character = 2\<rparr>
       = Inr (Some \<lparr>start = \<lparr>line = 2, character = 4\<rparr>, end' = \<lparr>line = 2, character = 9\<rparr>\<rparr>)
   \<and> valid_Range \<lparr>start = \<lparr>line = 2, character = 4\<rparr>, end' = \<lparr>line = 2, character = 9\<rparr>\<rparr>"
proof -
  have h: "valid_Range \<lparr>start = \<lparr>line = 2, character = 5\<rparr>, end' = \<lparr>line = 2, character = 10\<rparr>\<rparr>"
    "valid_Position \<lparr>line = 2, character = 0\<rparr>"
    "valid_Position \<lparr>line = 2, character = 3\<rparr>"
    "valid_Position \<lparr>line = 2, character = 2\<rparr>"
    "isBeforeOrEqual \<lparr>line = 2, character = 0\<rparr> \<lparr>line = 2, character = 3\<rparr>"
    "isBeforeOrEqual \<lparr>line = 2, character = 0\<rparr> \<lparr>line = 2, character = 2\<rparr>"
    by (simp_all add: valid_defs ord_defs)
  have v: "fixRange \<lparr>start = \<lparr>line = 2, character = 5\<rparr>, end' = \<lparr>line = 2, character = 10\<rparr>\<rparr>
         \<lparr>line = 2, character = 0\<rparr> \<lparr>line = 2, character = 3\<rparr> \<lparr>line = 2, character = 2\<rparr>
       = Inr (Some \<lparr>start = \<lparr>line = 2, character = 4\<rparr>, end' = \<lparr>line = 2, character = 9\<rparr>\<rparr>)"
    by (simp add: fixRange_def shiftRangeAfterRemove_def shiftRangeAfterInsert_def Let_def
        translate_def new_Position_def new_Range_def new_Range4_def ord_defs)
  from fixRange_one_branch_valid_result [OF h] v h show ?thesis by auto
qed

text \<open>Claim C9 at a range over three lines and a position in its middle.\<close>

theorem fixRange_identity_witness:
  "valid_Range \<lparr>start = \<lparr>line = 2, character = 5\<rparr>, end' = \<lparr>line = 4, character = 1\<rparr>\<rparr>
   \<and> fixRange \<lparr>start = \<lparr>line = 2, character = 5\<rparr>, end' = \<lparr>line = 4, character = 1\<rparr>\<rparr>
         \<lparr>line = 3, character = 7\<rparr> \<lparr>line = 3, character = 7\<rparr> \<lparr>line = 3, character = 7\<rparr>
       = Inr (Some \<lparr>start = \<lparr>line = 2, character = 5\<rparr>, end' = \<lparr>line = 4, character = 1\<rparr>\<rparr>)"
proof -
  have h: "valid_Range \<lparr>start = \<lparr>line = 2, character = 5\<rparr>, end' = \<lparr>line = 4, character = 1\<rparr>\<rparr>"
    by (simp add: valid_defs ord_defs)
  from fixRange_identity [OF h, of "\<lparr>line = 3, character = 7\<rparr>"] h show ?thesis by simp
qed

text \<open>Claim C10 at an edit that begins on the middle line of a range over three lines.\<close>

theorem fixRange_mid_range_keeps_start_witness:
  "valid_Range \<lparr>start = \<lparr>line = 2, character = 5\<rparr>, end' = \<lparr>line = 4, character = 6\<rparr>\<rparr>
   \<and> valid_Position \<lparr>line = 3, character = 0\<rparr>
   \<and> valid_Position \<lparr>line = 4, character = 2\<rparr>
   \<and> valid_Position \<lparr>line = 3, character = 1\<rparr>
   \<and> isBeforeOrEqual \<lparr>line = 3, character = 0\<rparr> \<lparr>line = 4, character = 2\<rparr>
   \<and> isBeforeOrEqual \<lparr>line = 3, character = 0\<rparr> \<lparr>line = 3, character = 1\<rparr>
   \<and> isAfter \<lparr>line = 3, character = 0\<rparr> \<lparr>line = 2, character = 5\<rparr>
   \<and> isBefore \<lparr>line = 3, character = 0\<rparr> \<lparr>line = 4, character = 6\<rparr>
   \<and> (\<exists>r'. fixRange \<lparr>start = \<lparr>line = 2, character = 5\<rparr>, end' = \<lparr>line = 4, character = 6\<rparr>\<rparr>
               \<lparr>line = 3, character = 0\<rparr> \<lparr>line = 4, character = 2\<rparr> \<lparr>line = 3, character = 1\<rparr>
             = Inr (Some r')
           \<and> start r' = \<lparr>line = 2, character = 5\<rparr>)"
proof -
  have h: "valid_Range \<lparr>start = \<lparr>line = 2, character = 5\<rparr>, end' = \<lparr>line = 4, character = 6\<rparr>\<rparr>"
    "valid_Position \<lparr>line = 3, character = 0\<rparr>"
    "valid_Position \<lparr>line = 4, character = 2\<rparr>"
    "valid_Position \<lparr>line = 3, character = 1\<rparr>"
    "isBeforeOrEqual \<lparr>line = 3, character = 0\<rparr> \<lparr>line = 4, character = 2\<rparr>"
    "isBeforeOrEqual \<lparr>line = 3, character = 0\<rparr> \<lparr>line = 3, character = 1\<rparr>"
    "isAfter \<lparr>line = 3, character = 0\<rparr>
       (start \<lparr>start = \<lparr>line = 2, character = 5\<rparr>, end' = \<lparr>line = 4, character = 6\<rparr>\<rparr>)"
    "isBefore \<lparr>line = 3, character = 0\<rparr>
       (end' \<lparr>start = \<lparr>line = 2, character = 5\<rparr>, end' = \<lparr>line = 4, character = 6\<rparr>\<rparr>)"
    by (simp_all add: valid_defs ord_defs)
  from fixRange_mid_range_keeps_start [OF h] h show ?thesis by simp
qed

text \<open>
  Claim C8 as stated fails: the edit starts at the start of the empty range (5,0)-(5,0) and
  removes up to (6,0), past its end, yet the range is returned unchanged.
\<close>

theorem fixRange_full_consumption_counterexample:
  "isBeforeOrEqual \<lparr>line = 5, character = 0\<rparr>
     (start \<lparr>start = \<lparr>line = 5, character = 0\<rparr>, end' = \<lparr>line = 5, character = 0\<rparr>\<rparr>)
   \<and> isAfterOrEqual \<lparr>line = 6, character = 0\<rparr>
     (end' \<lparr>start = \<lparr>line = 5, character = 0\<rparr>, end' = \<lparr>line = 5, character = 0\<rparr>\<rparr>)
   \<and> fixRange \<lparr>start = \<lparr>line = 5, character = 0\<rparr>, end' = \<lparr>line = 5, character = 0\<rparr>\<rparr>
         \<lparr>line = 5, character = 0\<rparr> \<lparr>line = 6, character = 0\<rparr> \<lparr>line = 5, character = 0\<rparr>
       = Inr (Some \<lparr>start = \<lparr>line = 5, character = 0\<rparr>, end' = \<lparr>line = 5, character = 0\<rparr>\<rparr>)
   \<and> fixRange \<lparr>start = \<lparr>line = 5, character = 0\<rparr>, end' = \<lparr>line = 5, character = 0\<rparr>\<rparr>
         \<lparr>line = 5, character = 0\<rparr> \<lparr>line = 6, character = 0\<rparr> \<lparr>line = 5, character = 0\<rparr>
       \<noteq> Inr None"
  by (simp add: fixRange_def ord_defs)

text \<open>
  Claim C8, amended, at the specification's scenario: the empty range (5,0)-(5,0) and an edit
  that removes lines 4 to 6.
\<close>

theorem fixRange_full_consumption_witness:
  "isBeforeOrEqual \<lparr>line = 4, character = 0\<rparr>
     (start \<lparr>start = \<lparr>line = 5, character = 0\<rparr>, end' = \<lparr>line = 5, character = 0\<rparr>\<rparr>)
   \<and> isAfterOrEqual \<lparr>line = 6, character = 0\<rparr>
     (end' \<lparr>start = \<lparr>line = 5, character = 0\<rparr>, end' = \<lparr>line = 5, character = 0\<rparr>\<rparr>)
   \<and> isBefore \<lparr>line = 4, character = 0\<rparr>
     (end' \<lparr>start = \<lparr>line = 5, character = 0\<rparr>, end' = \<lparr>line = 5, character = 0\<rparr>\<rparr>)
   \<and> fixRange \<lparr>start = \<lparr>line = 5, character = 0\<rparr>, end' = \<lparr>line = 5, character = 0\<rparr>\<rparr>
         \<lparr>line = 4, character = 0\<rparr> \<lparr>line = 6, character = 0\<rparr> \<lparr>line = 4, character = 0\<rparr>
       = Inr None"
proof -
  have h: "isBeforeOrEqual \<lparr>line = 4, character = 0\<rparr>
     (start \<lparr>start = \<lparr>line = 5, character = 0\<rparr>, end' = \<lparr>line = 5, character = 0\<rparr>\<rparr>)"
   "isAfterOrEqual \<lparr>line = 6, character = 0\<rparr>
     (end' \<lparr>start = \<lparr>line = 5, character = 0\<rparr>, end' = \<lparr>line = 5, character = 0\<rparr>\<rparr>)"
   "isBefore \<lparr>line = 4, character = 0\<rparr>
     (end' \<lparr>start = \<lparr>line = 5, character = 0\<rparr>, end' = \<lparr>line = 5, character = 0\<rparr>\<rparr>)"
    by (simp_all add: ord_defs)
  from fixRange_full_consumption [OF h, of "\<lparr>line = 4, character = 0\<rparr>"] h
  show ?thesis by blast
qed



section \<open>Properties of the edit log and of reconciliation\<close>

subsection \<open>The edit log\<close>

lemma findIndex_ge: "findIndex P xs \<ge> -1"
  by (induction xs) (auto simp: Let_def)

lemma findIndex_none: "(findIndex P xs = -1) = (\<forall>x\<in>set xs. \<not> P x)"
proof (induction xs)
  case Nil
  show ?case by simp
next
  case (Cons x xs)
  then show ?case using findIndex_ge [of P xs] by (auto simp: Let_def)
qed

lemma findIndex_drop:
  "findIndex P xs \<noteq> -1 \<Longrightarrow> drop (nat (findIndex P xs)) xs = dropWhile (\<lambda>x. \<not> P x) xs"
proof (induction xs)
  case Nil
  then show ?case by simp
next
  case (Cons x xs)
  show ?case
  proof (cases "P x")
    case True
    then show ?thesis by simp
  next
    case False
    with Cons.prems have ne: "findIndex P xs \<noteq> -1" by (auto simp: Let_def)
    moreover have "findIndex P xs \<ge> 0" using ne findIndex_ge [of P xs] by linarith
    ultimately show ?thesis using False Cons.IH
      by (simp add: Let_def nat_add_distrib)
  qed
qed

lemma dropWhile_sorted_filter:
  "sorted_wrt (<) (map editVersion es) \<Longrightarrow>
   dropWhile (\<lambda>e. \<not> editVersion e > m) es = filter (\<lambda>e. editVersion e > m) es"
proof (induction es)
  case Nil
  show ?case by simp
next
  case (Cons e es)
  show ?case
  proof (cases "editVersion e > m")
    case True
    with Cons.prems have "\<forall>x\<in>set es. editVersion x > m" by fastforce
    then have "filter (\<lambda>e. editVersion e > m) es = es" by (simp add: filter_id_conv)
    with True show ?thesis by simp
  next
    case False
    with Cons show ?thesis by simp
  qed
qed

lemma purge_versionedEdits:
  "versionedEdits (purgeOldVersionedEdits s) =
     dropWhile (\<lambda>e. \<not> editVersion e >
                  min (lastReceivedSemanticVersion s) (lastReceivedSyntacticVersion s))
       (versionedEdits s)"
proof (cases "findIndex (\<lambda>edit. editVersion edit >
                  min (lastReceivedSemanticVersion s) (lastReceivedSyntacticVersion s))
                (versionedEdits s) = -1")
  case True
  from True have "\<forall>x\<in>set (versionedEdits s). \<not> editVersion x >
                  min (lastReceivedSemanticVersion s) (lastReceivedSyntacticVersion s)"
    by (simp only: findIndex_none)
  then have B: "dropWhile (\<lambda>e. \<not> editVersion e >
                  min (lastReceivedSemanticVersion s) (lastReceivedSyntacticVersion s))
       (versionedEdits s) = []"
    by simp
  show ?thesis unfolding B using True by (simp add: purgeOldVersionedEdits_def)
next
  case False
  note d = findIndex_drop [OF False]
  show ?thesis
  proof (cases "findIndex (\<lambda>edit. editVersion edit >
                  min (lastReceivedSemanticVersion s) (lastReceivedSyntacticVersion s))
                (versionedEdits s) > 0")
    case True
    with False d show ?thesis by (simp add: purgeOldVersionedEdits_def Let_def)
  next
    case z: False
    with False findIndex_ge [of "\<lambda>edit. editVersion edit >
                  min (lastReceivedSemanticVersion s) (lastReceivedSyntacticVersion s)" "versionedEdits s"]
    have "findIndex (\<lambda>edit. editVersion edit >
                  min (lastReceivedSemanticVersion s) (lastReceivedSyntacticVersion s))
                (versionedEdits s) = 0" by linarith
    with d False show ?thesis by (simp add: purgeOldVersionedEdits_def Let_def)
  qed
qed

text \<open>
  Claim C6. When the versions in the edit log are strictly increasing, the log after
  \<^verbatim>\<open>purgeOldVersionedEdits\<close> consists of exactly the edits whose version is greater than
  the smaller of the two last-received versions, in their original order; no entry with a
  version at or below that minimum remains.
\<close>

theorem purge_keeps_exactly_newer_edits:
  assumes "sorted_wrt (<) (map editVersion (versionedEdits s))"
  shows "versionedEdits (purgeOldVersionedEdits s) =
           filter (\<lambda>e. editVersion e >
                     min (lastReceivedSyntacticVersion s) (lastReceivedSemanticVersion s))
             (versionedEdits s)
       \<and> (\<forall>e\<in>set (versionedEdits (purgeOldVersionedEdits s)).
             \<not> editVersion e \<le> min (lastReceivedSyntacticVersion s) (lastReceivedSemanticVersion s))"
proof -
  have "versionedEdits (purgeOldVersionedEdits s) =
           filter (\<lambda>e. editVersion e >
                     min (lastReceivedSyntacticVersion s) (lastReceivedSemanticVersion s))
             (versionedEdits s)"
    unfolding purge_versionedEdits
    using dropWhile_sorted_filter [OF assms] by (simp add: min.commute)
  then show ?thesis by auto
qed


subsection \<open>Reconciliation\<close>

lemma applyEdit_frame:
  assumes "applyEdit edit s = Inr s'"
  shows "versionedEdits s' = versionedEdits s"
    "lastReceivedSyntacticVersion s' = lastReceivedSyntacticVersion s"
    "lastReceivedSemanticVersion s' = lastReceivedSemanticVersion s"
    "decorations s' = decorations s"
    "inactiveDecoration s' = inactiveDecoration s"
  using assms by (auto simp: applyEdit_def split: if_splits sum.splits)

lemma applyEdit_versions:
  assumes "applyEdit edit s = Inr s'"
  shows "currentSyntacticVersion s' =
           (if editVersion edit > currentSyntacticVersion s then editVersion edit
            else currentSyntacticVersion s)"
    "currentSemanticVersion s' =
           (if editVersion edit > currentSemanticVersion s then editVersion edit
            else currentSemanticVersion s)"
  using assms by (auto simp: applyEdit_def split: if_splits sum.splits)

lemma applyEdit_caught_up:
  "editVersion edit \<le> currentSyntacticVersion s \<Longrightarrow> editVersion edit \<le> currentSemanticVersion s
   \<Longrightarrow> applyEdit edit s = Inr s"
  by (simp add: applyEdit_def)

lemma applyEdits_forEach_frame:
  "applyEdits_forEach edits s = Inr s' \<Longrightarrow>
     versionedEdits s' = versionedEdits s
     \<and> lastReceivedSyntacticVersion s' = lastReceivedSyntacticVersion s
     \<and> lastReceivedSemanticVersion s' = lastReceivedSemanticVersion s
     \<and> decorations s' = decorations s
     \<and> inactiveDecoration s' = inactiveDecoration s"
proof (induction edits arbitrary: s)
  case Nil
  then show ?case by simp
next
  case (Cons edit edits)
  then obtain s1 where s1: "applyEdit edit s = Inr s1" "applyEdits_forEach edits s1 = Inr s'"
    by (auto split: sum.splits)
  from Cons.IH [OF s1(2)] applyEdit_frame [OF s1(1)] show ?case by simp
qed

lemma last_consumed_ge: "v \<le> last (v # consumed edits v)"
proof (induction edits arbitrary: v)
  case Nil
  show ?case by simp
next
  case (Cons edit edits)
  show ?case
  proof (cases "editVersion edit > v")
    case True
    with Cons [of "editVersion edit"] show ?thesis by simp
  next
    case False
    with Cons [of v] show ?thesis by simp
  qed
qed

lemma consumed_increasing: "sorted_wrt (<) (v # consumed edits v)"
proof (induction edits arbitrary: v)
  case Nil
  show ?case by simp
next
  case (Cons edit edits)
  show ?case
  proof (cases "editVersion edit > v")
    case True
    with Cons [of "editVersion edit"] show ?thesis by fastforce
  next
    case False
    with Cons [of v] show ?thesis by simp
  qed
qed


lemma last_consumed_covers: "\<forall>e\<in>set edits. editVersion e \<le> last (v # consumed edits v)"
proof (induction edits arbitrary: v)
  case Nil
  show ?case by simp
next
  case (Cons edit edits)
  show ?case
  proof (cases "editVersion edit > v")
    case True
    with Cons [of "editVersion edit"] last_consumed_ge [of "editVersion edit" edits]
    show ?thesis by simp
  next
    case False
    with Cons [of v] last_consumed_ge [of v edits] show ?thesis by simp
  qed
qed

lemma applyEdits_forEach_versions:
  "applyEdits_forEach edits s = Inr s' \<Longrightarrow>
     currentSyntacticVersion s' =
       last (currentSyntacticVersion s # consumed edits (currentSyntacticVersion s))
     \<and> currentSemanticVersion s' =
       last (currentSemanticVersion s # consumed edits (currentSemanticVersion s))"
proof (induction edits arbitrary: s)
  case Nil
  then show ?case by simp
next
  case (Cons edit edits)
  then obtain s1 where s1: "applyEdit edit s = Inr s1" "applyEdits_forEach edits s1 = Inr s'"
    by (auto split: sum.splits)
  from Cons.IH [OF s1(2)] applyEdit_versions [OF s1(1)] show ?case by simp
qed

lemma applyEdits_forEach_caught_up:
  "\<forall>e\<in>set edits. editVersion e \<le> currentSyntacticVersion s
                  \<and> editVersion e \<le> currentSemanticVersion s
   \<Longrightarrow> applyEdits_forEach edits s = Inr s"
  by (induction edits) (simp_all add: applyEdit_caught_up)

lemma applyEdits_versions:
  assumes "applyEdits s = Inr s'"
  shows "currentSyntacticVersion s' =
       last (currentSyntacticVersion s # consumed (versionedEdits s) (currentSyntacticVersion s))"
    "currentSemanticVersion s' =
       last (currentSemanticVersion s # consumed (versionedEdits s) (currentSemanticVersion s))"
  using applyEdits_forEach_versions [of "versionedEdits s" s s'] assms
  by (simp_all add: applyEdits_def)

lemma applyEdits_frame:
  assumes "applyEdits s = Inr s'"
  shows "versionedEdits s' = versionedEdits s"
    "lastReceivedSyntacticVersion s' = lastReceivedSyntacticVersion s"
    "lastReceivedSemanticVersion s' = lastReceivedSemanticVersion s"
    "decorations s' = decorations s"
    "inactiveDecoration s' = inactiveDecoration s"
  using applyEdits_forEach_frame [of "versionedEdits s" s s'] assms
  by (simp_all add: applyEdits_def)

text \<open>
  Claim C7. Once \<^verbatim>\<open>applyEdits\<close> has run, running it again with no edit recorded in
  between changes nothing: it returns the very same state (ranges of both passes, inactive
  ranges and both applied-version counters included).
\<close>

theorem applyEdits_twice_is_noop:
  assumes "applyEdits s = Inr s'"
  shows "applyEdits s' = Inr s'"
proof -
  have "\<forall>e\<in>set (versionedEdits s'). editVersion e \<le> currentSyntacticVersion s'
                  \<and> editVersion e \<le> currentSemanticVersion s'"
    unfolding applyEdits_versions [OF assms] applyEdits_frame(1) [OF assms]
    using last_consumed_covers by blast
  then show ?thesis
    unfolding applyEdits_def by (rule applyEdits_forEach_caught_up)
qed


subsection \<open>Classification results\<close>

lemma createColorizationDecorations_frame:
  assumes "createColorizationDecorations env isCpp (s, w) = (s', w')"
  shows "versionedEdits s' = versionedEdits s"
    "currentSyntacticVersion s' = currentSyntacticVersion s"
    "currentSemanticVersion s' = currentSemanticVersion s"
    "lastReceivedSyntacticVersion s' = lastReceivedSyntacticVersion s"
    "lastReceivedSemanticVersion s' = lastReceivedSemanticVersion s"
  using assms
  by (auto simp: createColorizationDecorations_def split: if_splits prod.splits)

lemma purge_frame:
  "currentSyntacticVersion (purgeOldVersionedEdits s) = currentSyntacticVersion s"
  "currentSemanticVersion (purgeOldVersionedEdits s) = currentSemanticVersion s"
  "lastReceivedSyntacticVersion (purgeOldVersionedEdits s) = lastReceivedSyntacticVersion s"
  "lastReceivedSemanticVersion (purgeOldVersionedEdits s) = lastReceivedSemanticVersion s"
  by (simp_all add: purgeOldVersionedEdits_def Let_def)


lemma updateColorizationRanges_result:
  assumes "updateColorizationRanges env uri (s, w) = Inr (s', w')"
  shows "\<exists>s1. applyEdits s = Inr s1
     \<and> versionedEdits s' = versionedEdits (purgeOldVersionedEdits s1)
     \<and> currentSyntacticVersion s' = currentSyntacticVersion s1
     \<and> currentSemanticVersion s' = currentSemanticVersion s1
     \<and> lastReceivedSyntacticVersion s' = lastReceivedSyntacticVersion s
     \<and> lastReceivedSemanticVersion s' = lastReceivedSemanticVersion s"
proof -
  from assms obtain s1 where s1: "applyEdits s = Inr s1"
    by (auto simp: updateColorizationRanges_def split: sum.splits)
  define s3 where "s3 = (purgeOldVersionedEdits s1)\<lparr>inactiveDecoration := None,
                         decorations := replicate TokenKind_Count None\<rparr>"
  obtain s4 w4 where c: "createColorizationDecorations env (isEditorFileCpp env uri) (s3, w) = (s4, w4)"
    by (cases "createColorizationDecorations env (isEditorFileCpp env uri) (s3, w)")
  have "s' = s4"
    using assms s1 c by (simp add: updateColorizationRanges_def Let_def s3_def)
  with createColorizationDecorations_frame [OF c] applyEdits_frame [OF s1] s1
  show ?thesis by (simp add: s3_def purge_frame)
qed

text \<open>
  Claim C1, amended. After \<^verbatim>\<open>updateSyntactic\<close> with version \<open>v\<close> the last-received
  version of the syntactic pass is \<open>v\<close>, and after \<^verbatim>\<open>updateSemantic\<close> with version \<open>v2\<close>
  that of the semantic pass is \<open>v2\<close>, whatever the counter was before (so it equals the
  maximum of the old counter and the version only when the version is not lower); the other
  pass's counter is unchanged.
\<close>

theorem update_sets_last_received_version:
  assumes "updateSyntactic env uri newRanges v (s, w) = Inr (s', w')"
    and "updateSemantic env2 uri2 newRanges2 newInactive2 v2 (t, u) = Inr (t', u')"
  shows "lastReceivedSyntacticVersion s' = v
       \<and> lastReceivedSemanticVersion s' = lastReceivedSemanticVersion s
       \<and> lastReceivedSemanticVersion t' = v2
       \<and> lastReceivedSyntacticVersion t' = lastReceivedSyntacticVersion t"
  using updateColorizationRanges_result [OF assms(1) [unfolded updateSyntactic_def prod.case]]
    updateColorizationRanges_result [OF assms(2) [unfolded updateSemantic_def prod.case]]
  by auto







section \<open>Properties of the presentation protocol\<close>

lemma grows_refl: "grows w w"
  by (simp add: grows_def)

lemma grows_trans: "grows w w1 \<Longrightarrow> grows w1 w2 \<Longrightarrow> grows w w2"
  by (fastforce simp: grows_def)

lemma grows_create: "createTextEditorDecorationType w = (d, w') \<Longrightarrow> grows w w'"
  by (auto simp: createTextEditorDecorationType_def grows_def)

lemma grows_createFromStyle: "createDecorationFromThemeStyle st w = (d, w') \<Longrightarrow> grows w w'"
  by (auto simp: createDecorationFromThemeStyle_def grows_refl
      split: option.splits if_splits prod.splits dest: grows_create)

lemma grows_createDecorations_from:
  "createDecorations_from i m decs w = (decs', w') \<Longrightarrow> grows w w'"
proof (induction i arbitrary: decs w)
  case 0
  then show ?case by (simp add: grows_refl)
next
  case (Suc i)
  obtain d w1 where c: "createDecorationFromThemeStyle (array_get m i) w = (d, w1)"
    by (cases "createDecorationFromThemeStyle (array_get m i) w")
  with Suc.prems have "createDecorations_from i m (decs[i := d]) w1 = (decs', w')" by simp
  from grows_trans [OF grows_createFromStyle [OF c] Suc.IH [OF this]] show ?case .
qed

lemma grows_createColorizationDecorations:
  assumes "createColorizationDecorations env isCpp (s, w) = (s', w')"
  shows "grows w w'"
proof -
  obtain s1 w1 where a: "(if colorizationEnabled (settings env) then
                 (case createDecorations_from TokenKind_Count
                         (if isCpp then themeStyleCppMap env else themeStyleCMap env)
                         (decorations s) w of
                    (decs, w') \<Rightarrow> (s\<lparr>decorations := decs\<rparr>, w'))
               else (s, w)) = (s1, w1)"
    by (cases "(if colorizationEnabled (settings env) then
                 (case createDecorations_from TokenKind_Count
                         (if isCpp then themeStyleCppMap env else themeStyleCMap env)
                         (decorations s) w of
                    (decs, w') \<Rightarrow> (s\<lparr>decorations := decs\<rparr>, w'))
               else (s, w))")
  then have g1: "grows w w1"
    by (auto simp: grows_refl split: if_splits prod.splits dest: grows_createDecorations_from)
  have "grows w1 w'"
    using assms a
    by (auto simp: createColorizationDecorations_def grows_refl
        split: if_splits prod.splits dest: grows_create)
  with g1 show ?thesis by (rule grows_trans)
qed

lemma grows_setDecorations: "grows w (setDecorations e d rs w)"
  by (simp add: setDecorations_def grows_def)

lemma grows_refreshKind: "grows w (refreshKind e s i w)"
  by (auto simp: refreshKind_def Let_def grows_refl grows_setDecorations split: option.splits)

lemma grows_fold_refreshKind: "grows w (fold (refreshKind e s) is w)"
proof (induction "is" arbitrary: w)
  case Nil
  show ?case by (simp add: grows_refl)
next
  case (Cons i "is")
  from grows_trans [OF grows_refreshKind Cons] show ?case by simp
qed

lemma grows_refreshInner: "grows w (refreshInner env e s w)"
proof -
  have "grows w (if colorizationEnabled (settings env)
                then fold (refreshKind e s) [0..<TokenKind_Count] w else w)"
    by (simp add: grows_refl grows_fold_refreshKind)
  moreover have "grows w1 (if dimInactiveRegions (settings env) then
           (case inactiveDecoration s of
              None \<Rightarrow> w1
            | Some d \<Rightarrow>
                (case inactiveRanges s of
                   None \<Rightarrow> w1
                 | Some rs \<Rightarrow> setDecorations e d rs w1))
         else w1)" for w1
    by (auto simp: grows_refl grows_setDecorations split: option.splits)
  ultimately show ?thesis
    unfolding refreshInner_def Let_def by (rule grows_trans)
qed

lemma grows_fold_refreshInner: "grows w (fold (\<lambda>e. refreshInner env e s) es w)"
proof (induction es arbitrary: w)
  case Nil
  show ?case by (simp add: grows_refl)
next
  case (Cons e es)
  from grows_trans [OF grows_refreshInner Cons] show ?case by simp
qed

lemma events_dispose_each:
  "events (dispose_each ds w) = events w @ map Dispose (List.map_filter id ds)"
  by (induction ds w rule: dispose_each.induct)
     (simp_all add: dispose_decoration_def List.map_filter_simps)

text \<open>
  The task of \<^verbatim>\<open>updateColorizationRanges\<close> follows the protocol: whatever it creates and
  applies comes first, and the decorations that were active before are disposed of at the end.
\<close>

lemma updateColorizationRanges_order:
  assumes "updateColorizationRanges env uri (s, w) = Inr (s', w')"
  shows "\<exists>new. events w' =
           events w @ new
             @ (case inactiveDecoration s of None \<Rightarrow> [] | Some d \<Rightarrow> [Dispose d])
             @ map Dispose (List.map_filter id (decorations s))
         \<and> (\<forall>e\<in>set new. \<not> is_Dispose e)"
proof -
  from assms obtain s1 where s1: "applyEdits s = Inr s1"
    by (auto simp: updateColorizationRanges_def split: sum.splits)
  define s2 where "s2 = purgeOldVersionedEdits s1"
  define s3 where "s3 = s2\<lparr>inactiveDecoration := None,
                         decorations := replicate TokenKind_Count None\<rparr>"
  obtain s4 w4 where c: "createColorizationDecorations env (isEditorFileCpp env uri) (s3, w) = (s4, w4)"
    by (cases "createColorizationDecorations env (isEditorFileCpp env uri) (s3, w)")
  have e: "s4 = s'"
    using assms s1 c by (auto simp: updateColorizationRanges_def Let_def s2_def s3_def)
  define w5 where "w5 = fold (\<lambda>e. refreshInner env e s')
      (filter (\<lambda>e. uri_toString (document_uri e) = uri) (visibleTextEditors w4)) w4"
  have old: "inactiveDecoration s2 = inactiveDecoration s" "decorations s2 = decorations s"
    using applyEdits_frame [OF s1] by (simp_all add: s2_def purgeOldVersionedEdits_def Let_def)
  have w': "w' = dispose_each (decorations s)
                   (case inactiveDecoration s of None \<Rightarrow> w5 | Some d \<Rightarrow> dispose_decoration d w5)"
    using assms s1 c old e
    by (auto simp: updateColorizationRanges_def Let_def s2_def [symmetric] s3_def [symmetric]
        w5_def split: option.splits)
  have "grows w w5"
    unfolding w5_def
    using grows_trans [OF grows_createColorizationDecorations [OF c] grows_fold_refreshInner] .
  then obtain new where new: "events w5 = events w @ new" "\<forall>e\<in>set new. \<not> is_Dispose e"
    by (auto simp: grows_def)
  have "events w' = events w @ new
             @ (case inactiveDecoration s of None \<Rightarrow> [] | Some d \<Rightarrow> [Dispose d])
             @ map Dispose (List.map_filter id (decorations s))"
    unfolding w' events_dispose_each
    using new(1) by (simp add: dispose_decoration_def split: option.splits)
  with new(2) show ?thesis by blast
qed


lemma events_disposeColorizationDecorations:
  "disposeColorizationDecorations (s, w) = (s', w') \<Longrightarrow>
     events w' = events w
       @ (case inactiveDecoration s of None \<Rightarrow> [] | Some d \<Rightarrow> [Dispose d])
       @ map Dispose (List.map_filter id (decorations s))"
  by (auto simp: disposeColorizationDecorations_def Let_def events_dispose_each
      dispose_decoration_def split: option.splits)

text \<open>
  The task of \<^verbatim>\<open>onSettingsChanged\<close> does the opposite: the decorations that were active
  before are disposed of first, and the new ones are created and applied afterwards.
\<close>

lemma onSettingsChanged_order:
  assumes "onSettingsChanged env uri (s, w) = Inr (s', w')"
  shows "\<exists>new. events w' =
           events w
             @ (case inactiveDecoration s of None \<Rightarrow> [] | Some d \<Rightarrow> [Dispose d])
             @ map Dispose (List.map_filter id (decorations s))
             @ new
         \<and> (\<forall>e\<in>set new. \<not> is_Dispose e)"
proof -
  from assms obtain s1 where s1: "applyEdits s = Inr s1"
    by (auto simp: onSettingsChanged_def split: sum.splits)
  obtain s2 w2 where d: "disposeColorizationDecorations (s1, w) = (s2, w2)"
    by (cases "disposeColorizationDecorations (s1, w)")
  obtain s3 w3 where c:
    "createColorizationDecorations env (isEditorFileCpp env (uri_toString uri)) (s2, w2) = (s3, w3)"
    by (cases "createColorizationDecorations env (isEditorFileCpp env (uri_toString uri)) (s2, w2)")
  have w': "w' = fold (\<lambda>e. refreshInner env e s3)
                   (filter (\<lambda>e. document_uri e = uri) (visibleTextEditors w3)) w3"
    using assms s1 d c by (auto simp: onSettingsChanged_def Let_def)
  have "grows w2 w'"
    unfolding w'
    using grows_trans [OF grows_createColorizationDecorations [OF c] grows_fold_refreshInner] .
  then obtain new where new: "events w' = events w2 @ new" "\<forall>e\<in>set new. \<not> is_Dispose e"
    by (auto simp: grows_def)
  from events_disposeColorizationDecorations [OF d] applyEdits_frame(4,5) [OF s1] new
  show ?thesis by auto
qed

section \<open>The colorization state at concrete inputs\<close>

text \<open>
  Claim C1 as stated fails: a syntactic result of version 3 that arrives when the
  last-received version is 5 sets the counter to 3, which is not the maximum of 5 and 3.
\<close>

theorem last_received_version_counterexample:
  "updateSyntactic plain_environment ''a.cpp'' [] 3
     (new_ColorizationState\<lparr>currentSyntacticVersion := 5, lastReceivedSyntacticVersion := 5\<rparr>,
      empty_window)
   = Inr (new_ColorizationState\<lparr>currentSyntacticVersion := 3, lastReceivedSyntacticVersion := 3\<rparr>,
          empty_window)
   \<and> lastReceivedSyntacticVersion
        (new_ColorizationState\<lparr>currentSyntacticVersion := 3, lastReceivedSyntacticVersion := 3\<rparr>)
       \<noteq> max 5 3"
  by code_simp

text \<open>Claim C1, amended, at a syntactic result of version 7 and a semantic one of version 4.\<close>

theorem update_sets_last_received_version_witness:
  "updateSyntactic plain_environment ''a.cpp'' [] 7 (new_ColorizationState, empty_window)
   = Inr (new_ColorizationState\<lparr>currentSyntacticVersion := 7, lastReceivedSyntacticVersion := 7\<rparr>,
          empty_window)
   \<and> updateSemantic plain_environment ''a.cpp'' [] (Some []) 4 (new_ColorizationState, empty_window)
   = Inr (new_ColorizationState\<lparr>currentSemanticVersion := 4, lastReceivedSemanticVersion := 4\<rparr>,
          empty_window)
   \<and> lastReceivedSyntacticVersion
        (new_ColorizationState\<lparr>currentSyntacticVersion := 7, lastReceivedSyntacticVersion := 7\<rparr>) = 7
   \<and> lastReceivedSemanticVersion
        (new_ColorizationState\<lparr>currentSemanticVersion := 4, lastReceivedSemanticVersion := 4\<rparr>) = 4"
proof -
  have h1: "updateSyntactic plain_environment ''a.cpp'' [] 7 (new_ColorizationState, empty_window)
   = Inr (new_ColorizationState\<lparr>currentSyntacticVersion := 7, lastReceivedSyntacticVersion := 7\<rparr>,
          empty_window)"
    by code_simp
  have h2: "updateSemantic plain_environment ''a.cpp'' [] (Some []) 4 (new_ColorizationState, empty_window)
   = Inr (new_ColorizationState\<lparr>currentSemanticVersion := 4, lastReceivedSemanticVersion := 4\<rparr>,
          empty_window)"
    by code_simp
  from update_sets_last_received_version [OF h1 h2] h1 h2 show ?thesis by blast
qed



text \<open>
  Claim C6 at the specification's scenario: the log holds versions 1 to 4, the syntactic
  pass last received version 2 and the semantic pass version 3; edits 3 and 4 stay.
\<close>

theorem purge_keeps_exactly_newer_edits_witness:
  "sorted_wrt (<) (map editVersion
      (versionedEdits
        (new_ColorizationState
           \<lparr>versionedEdits := [\<lparr>editVersion = 1, changes = []\<rparr>, \<lparr>editVersion = 2, changes = []\<rparr>,
                               \<lparr>editVersion = 3, changes = []\<rparr>, \<lparr>editVersion = 4, changes = []\<rparr>],
            lastReceivedSyntacticVersion := 2, lastReceivedSemanticVersion := 3\<rparr>)))
   \<and> versionedEdits
        (purgeOldVersionedEdits
          (new_ColorizationState
             \<lparr>versionedEdits := [\<lparr>editVersion = 1, changes = []\<rparr>, \<lparr>editVersion = 2, changes = []\<rparr>,
                                 \<lparr>editVersion = 3, changes = []\<rparr>, \<lparr>editVersion = 4, changes = []\<rparr>],
              lastReceivedSyntacticVersion := 2, lastReceivedSemanticVersion := 3\<rparr>))
       = [\<lparr>editVersion = 3, changes = []\<rparr>, \<lparr>editVersion = 4, changes = []\<rparr>]"
proof -
  have h: "sorted_wrt (<) (map editVersion
      (versionedEdits
        (new_ColorizationState
           \<lparr>versionedEdits := [\<lparr>editVersion = 1, changes = []\<rparr>, \<lparr>editVersion = 2, changes = []\<rparr>,
                               \<lparr>editVersion = 3, changes = []\<rparr>, \<lparr>editVersion = 4, changes = []\<rparr>],
            lastReceivedSyntacticVersion := 2, lastReceivedSemanticVersion := 3\<rparr>)))"
    by simp
  from purge_keeps_exactly_newer_edits [OF h] h show ?thesis by simp
qed

text \<open>
  Claim C7 at a state with one cached syntactic range and one pending edit that inserts two
  characters before it.
\<close>

theorem applyEdits_twice_is_noop_witness:
  "applyEdits
     (new_ColorizationState
        \<lparr>syntacticRanges := (replicate TokenKind_Count None)
           [1 := Some [\<lparr>start = \<lparr>line = 0, character = 4\<rparr>, end' = \<lparr>line = 0, character = 6\<rparr>\<rparr>]],
         versionedEdits :=
           [\<lparr>editVersion = 1,
             changes = [\<lparr>change_range = \<lparr>start = \<lparr>line = 0, character = 0\<rparr>,
                                           end' = \<lparr>line = 0, character = 0\<rparr>\<rparr>,
                         change_text = ''ab''\<rparr>]\<rparr>]\<rparr>)
   = Inr (new_ColorizationState
        \<lparr>syntacticRanges := (replicate TokenKind_Count None)
           [1 := Some [\<lparr>start = \<lparr>line = 0, character = 6\<rparr>, end' = \<lparr>line = 0, character = 8\<rparr>\<rparr>]],
         versionedEdits :=
           [\<lparr>editVersion = 1,
             changes = [\<lparr>change_range = \<lparr>start = \<lparr>line = 0, character = 0\<rparr>,
                                           end' = \<lparr>line = 0, character = 0\<rparr>\<rparr>,
                         change_text = ''ab''\<rparr>]\<rparr>],
         currentSyntacticVersion := 1, currentSemanticVersion := 1\<rparr>)
   \<and> applyEdits
     (new_ColorizationState
        \<lparr>syntacticRanges := (replicate TokenKind_Count None)
           [1 := Some [\<lparr>start = \<lparr>line = 0, character = 6\<rparr>, end' = \<lparr>line = 0, character = 8\<rparr>\<rparr>]],
         versionedEdits :=
           [\<lparr>editVersion = 1,
             changes = [\<lparr>change_range = \<lparr>start = \<lparr>line = 0, character = 0\<rparr>,
                                           end' = \<lparr>line = 0, character = 0\<rparr>\<rparr>,
                         change_text = ''ab''\<rparr>]\<rparr>],
         currentSyntacticVersion := 1, currentSemanticVersion := 1\<rparr>)
   = Inr (new_ColorizationState
        \<lparr>syntacticRanges := (replicate TokenKind_Count None)
           [1 := Some [\<lparr>start = \<lparr>line = 0, character = 6\<rparr>, end' = \<lparr>line = 0, character = 8\<rparr>\<rparr>]],
         versionedEdits :=
           [\<lparr>editVersion = 1,
             changes = [\<lparr>change_range = \<lparr>start = \<lparr>line = 0, character = 0\<rparr>,
                                           end' = \<lparr>line = 0, character = 0\<rparr>\<rparr>,
                         change_text = ''ab''\<rparr>]\<rparr>],
         currentSyntacticVersion := 1, currentSemanticVersion := 1\<rparr>)"
proof -
  have h: "applyEdits
     (new_ColorizationState
        \<lparr>syntacticRanges := (replicate TokenKind_Count None)
           [1 := Some [\<lparr>start = \<lparr>line = 0, character = 4\<rparr>, end' = \<lparr>line = 0, character = 6\<rparr>\<rparr>]],
         versionedEdits :=
           [\<lparr>editVersion = 1,
             changes = [\<lparr>change_range = \<lparr>start = \<lparr>line = 0, character = 0\<rparr>,
                                           end' = \<lparr>line = 0, character = 0\<rparr>\<rparr>,
                         change_text = ''ab''\<rparr>]\<rparr>]\<rparr>)
   = Inr (new_ColorizationState
        \<lparr>syntacticRanges := (replicate TokenKind_Count None)
           [1 := Some [\<lparr>start = \<lparr>line = 0, character = 6\<rparr>, end' = \<lparr>line = 0, character = 8\<rparr>\<rparr>]],
         versionedEdits :=
           [\<lparr>editVersion = 1,
             changes = [\<lparr>change_range = \<lparr>start = \<lparr>line = 0, character = 0\<rparr>,
                                           end' = \<lparr>line = 0, character = 0\<rparr>\<rparr>,
                         change_text = ''ab''\<rparr>]\<rparr>],
         currentSyntacticVersion := 1, currentSemanticVersion := 1\<rparr>)"
    by code_simp
  from applyEdits_twice_is_noop [OF h] h show ?thesis by blast
qed

text \<open>
  Claim C2 fails on the path of a settings change. The state holds the decoration 0 for
  inactive regions, and one editor shows the document. \<^verbatim>\<open>onSettingsChanged\<close> disposes of
  decoration 0 first, and only then creates decoration 1 and applies it to the editor.
\<close>

theorem onSettingsChanged_disposes_first:
  "onSettingsChanged dimming_environment (Uri 1 ''a.cpp'')
     (new_ColorizationState
        \<lparr>inactiveDecoration := Some 0,
         inactiveRanges := Some [\<lparr>start = \<lparr>line = 1, character = 0\<rparr>,
                                  end' = \<lparr>line = 3, character = 0\<rparr>\<rparr>]\<rparr>,
      \<lparr>visibleTextEditors = [\<lparr>editor_id = 7, document_uri = Uri 1 ''a.cpp''\<rparr>],
       events = [CreateDecoration 0], created = 1\<rparr>)
   = Inr (new_ColorizationState
            \<lparr>inactiveDecoration := Some 1,
             inactiveRanges := Some [\<lparr>start = \<lparr>line = 1, character = 0\<rparr>,
                                      end' = \<lparr>line = 3, character = 0\<rparr>\<rparr>]\<rparr>,
          \<lparr>visibleTextEditors = [\<lparr>editor_id = 7, document_uri = Uri 1 ''a.cpp''\<rparr>],
           events = [CreateDecoration 0, Dispose 0, CreateDecoration 1,
                     SetDecorations 7 1 [\<lparr>start = \<lparr>line = 1, character = 0\<rparr>,
                                          end' = \<lparr>line = 3, character = 0\<rparr>\<rparr>]],
           created = 2\<rparr>)"
  by code_simp

text \<open>
  On the same input the task of \<^verbatim>\<open>updateColorizationRanges\<close> creates and applies
  decoration 1 before it disposes of decoration 0.
\<close>

lemma updateColorizationRanges_disposes_last:
  "updateColorizationRanges dimming_environment ''a.cpp''
     (new_ColorizationState
        \<lparr>inactiveDecoration := Some 0,
         inactiveRanges := Some [\<lparr>start = \<lparr>line = 1, character = 0\<rparr>,
                                  end' = \<lparr>line = 3, character = 0\<rparr>\<rparr>]\<rparr>,
      \<lparr>visibleTextEditors = [\<lparr>editor_id = 7, document_uri = Uri 1 ''a.cpp''\<rparr>],
       events = [CreateDecoration 0], created = 1\<rparr>)
   = Inr (new_ColorizationState
            \<lparr>inactiveDecoration := Some 1,
             inactiveRanges := Some [\<lparr>start = \<lparr>line = 1, character = 0\<rparr>,
                                      end' = \<lparr>line = 3, character = 0\<rparr>\<rparr>]\<rparr>,
          \<lparr>visibleTextEditors = [\<lparr>editor_id = 7, document_uri = Uri 1 ''a.cpp''\<rparr>],
           events = [CreateDecoration 0, CreateDecoration 1,
                     SetDecorations 7 1 [\<lparr>start = \<lparr>line = 1, character = 0\<rparr>,
                                          end' = \<lparr>line = 3, character = 0\<rparr>\<rparr>],
                     Dispose 0],
           created = 2\<rparr>)"
  by code_simp

end
